theory Spec2Isabelle
  imports Complex_Main
begin

section \<open>The amortization engine of LoanPmt.py\<close>

text \<open>
  The class \<open>MortgagePayment\<close> of \<open>LoanPmt.py\<close> is embedded function by function.
  Python's floats are idealised to the real numbers: every arithmetic operation is exact,
  so the theorems below speak about the algorithm, not about binary rounding. The only
  rounding kept is the one the code asks for, \<open>DataFrame.round(2)\<close> on the returned frame.
  Every place where Python raises is a branch returning \<open>Inl\<close>.

  Names follow the source. The argument \<open>principal\<close> is written \<open>princ\<close>, since HOL has
  a constant of that name, \<open>_period_rate\<close> and \<open>__init__\<close> lose their underscores, and the
  keys of a schedule row are written with underscores for their spaces.
\<close>

subsection \<open>Errors and arithmetic that can fail\<close>

text \<open>
  \<open>ZeroDivisionError\<close>: true division by zero and \<open>0.0 ** negative\<close>.
  \<open>KeyError\<close>: selecting the six columns of a frame built from an empty list.
  \<open>ComplexResult\<close>: a negative float raised to a non-integral power is a complex number
  in Python, not an exception; the real-valued model stops there.
\<close>

datatype error = ZeroDivisionError | KeyError | ComplexResult

text \<open>\<open>x ** y\<close> on floats.\<close>

definition float_pow :: "real \<Rightarrow> real \<Rightarrow> error + real" where
  "float_pow x y =
     (if 0 < x then Inr (x powr y)
      else if x = 0 then
        (if y < 0 then Inl ZeroDivisionError else if y = 0 then Inr 1 else Inr 0)
      else if y = of_int \<lfloor>y\<rfloor> then Inr (x powi \<lfloor>y\<rfloor>)
      else Inl ComplexResult)"

subsection \<open>The object and its constructor\<close>

record mortgage_payment =
  quoted_interest_rate :: real
  amortization_years :: int
  term_years :: int
  monthly_rate :: real
  semi_monthly_rate :: real
  bi_weekly_rate :: real
  weekly_rate :: real

text \<open>
  The nested function \<open>_period_rate\<close> (lines 40-42):
  \<open>r = ((1+(quoted_interest_rate/2))**(2/periods_per_year))-1\<close>.
  \<open>2/periods_per_year\<close> is a true division of two ints.
\<close>

definition period_rate :: "real \<Rightarrow> int \<Rightarrow> error + real" where
  "period_rate quoted periods_per_year =
     (if periods_per_year = 0 then Inl ZeroDivisionError
      else case float_pow (1 + quoted / 2) (2 / of_int periods_per_year) of
             Inl e \<Rightarrow> Inl e
           | Inr v \<Rightarrow> Inr (v - 1))"

text \<open>\<open>__init__\<close> (lines 24-46): the quoted rate arrives as a percentage.\<close>

definition init :: "real \<Rightarrow> int \<Rightarrow> int \<Rightarrow> error + mortgage_payment" where
  "init quoted years term =
     (let q = quoted / 100 in
      case period_rate q 12 of Inl e \<Rightarrow> Inl e | Inr mr \<Rightarrow>
     (case period_rate q 24 of Inl e \<Rightarrow> Inl e | Inr sr \<Rightarrow>
     (case period_rate q 26 of Inl e \<Rightarrow> Inl e | Inr br \<Rightarrow>
     (case period_rate q 52 of Inl e \<Rightarrow> Inl e | Inr wr \<Rightarrow>
        Inr \<lparr>quoted_interest_rate = q, amortization_years = years, term_years = term,
             monthly_rate = mr, semi_monthly_rate = sr, bi_weekly_rate = br,
             weekly_rate = wr\<rparr>))))"

subsection \<open>The payment solver\<close>

text \<open>
  \<open>calculate_payment\<close> (lines 53-58). \<open>n\<close> is an int, \<open>(1+rate)**-n\<close> a float raised to an
  int, which Python computes as a float power.
\<close>

definition calculate_payment :: "mortgage_payment \<Rightarrow> real \<Rightarrow> real \<Rightarrow> int \<Rightarrow> error + real" where
  "calculate_payment self princ rate m =
     (let n = amortization_years self * m in
      if rate = 0 then
        (if n = 0 then Inl ZeroDivisionError else Inr (princ / of_int n))
      else case float_pow (1 + rate) (of_int (- n)) of
             Inl e \<Rightarrow> Inl e
           | Inr v \<Rightarrow>
               if 1 - v = 0 then Inl ZeroDivisionError
               else Inr ((princ * rate) / (1 - v)))"

text \<open>\<open>payments\<close> (lines 62-69): the six payments as a tuple, in the source's order.\<close>

definition payments ::
  "mortgage_payment \<Rightarrow> real \<Rightarrow> error + (real \<times> real \<times> real \<times> real \<times> real \<times> real)" where
  "payments self princ =
     (case calculate_payment self princ (monthly_rate self) 12 of
        Inl e \<Rightarrow> Inl e | Inr monthly \<Rightarrow>
     (case calculate_payment self princ (semi_monthly_rate self) 24 of
        Inl e \<Rightarrow> Inl e | Inr semi_monthly \<Rightarrow>
     (case calculate_payment self princ (bi_weekly_rate self) 26 of
        Inl e \<Rightarrow> Inl e | Inr bi_weekly \<Rightarrow>
      let accelerated_bi_weekly = monthly / 2 in
     (case calculate_payment self princ (weekly_rate self) 52 of
        Inl e \<Rightarrow> Inl e | Inr weekly \<Rightarrow>
      let accelerated_weekly = monthly / 4 in
        Inr (monthly, semi_monthly, bi_weekly, accelerated_bi_weekly, weekly,
             accelerated_weekly)))))"

subsection \<open>The schedule builder\<close>

text \<open>One dictionary appended to \<open>data\<close> (lines 112-119).\<close>

record schedule_row =
  Period :: int
  Beginning_Balance :: real
  Payment :: real
  Principal_Paid :: real
  Interest_Paid :: real
  Ending_Balance :: real

text \<open>The body of the loop after the break test (lines 97-119), for one period.\<close>

definition period_row :: "real \<Rightarrow> real \<Rightarrow> int \<Rightarrow> real \<Rightarrow> schedule_row" where
  "period_row payment rate period current_balance =
     (let interest_paid = current_balance * rate in
      if current_balance + interest_paid < payment then
        \<lparr>Period = period, Beginning_Balance = current_balance,
         Payment = current_balance + interest_paid, Principal_Paid = current_balance,
         Interest_Paid = interest_paid, Ending_Balance = 0\<rparr>
      else
        \<lparr>Period = period, Beginning_Balance = current_balance,
         Payment = payment, Principal_Paid = payment - interest_paid,
         Interest_Paid = interest_paid,
         Ending_Balance = current_balance - (payment - interest_paid)\<rparr>)"

text \<open>
  The \<open>for\<close> loop (lines 92-121) over the periods still to come; the rows are returned in
  the order in which the source appends them.
\<close>

fun schedule_loop :: "real \<Rightarrow> real \<Rightarrow> int list \<Rightarrow> real \<Rightarrow> schedule_row list" where
  "schedule_loop payment rate [] current_balance = []"
| "schedule_loop payment rate (period # periods) current_balance =
     (if current_balance \<le> 0 then []
      else let row = period_row payment rate period current_balance
           in row # schedule_loop payment rate periods (Ending_Balance row))"

text \<open>The list \<open>data\<close> when the loop has ended (lines 86-121); \<open>range(1, total_periods + 2)\<close>.\<close>

definition schedule_data ::
  "mortgage_payment \<Rightarrow> real \<Rightarrow> real \<Rightarrow> real \<Rightarrow> int \<Rightarrow> schedule_row list" where
  "schedule_data self princ payment rate periods_per_year =
     (let total_periods = amortization_years self * periods_per_year in
      schedule_loop payment rate [1..total_periods + 1] princ)"

text \<open>
  \<open>DataFrame.round(2)\<close>: each float is scaled by 100, rounded to the nearest integer with
  ties to the even one, and scaled back; the int column \<open>Period\<close> is left alone.
\<close>

definition rint :: "real \<Rightarrow> int" where
  "rint x =
     (let f = \<lfloor>x\<rfloor> in
      if x - of_int f < 1 / 2 then f
      else if 1 / 2 < x - of_int f then f + 1
      else if even f then f else f + 1)"

definition round2 :: "real \<Rightarrow> real" where
  "round2 x = of_int (rint (x * 100)) / 100"

definition round_row :: "schedule_row \<Rightarrow> schedule_row" where
  "round_row row =
     \<lparr>Period = Period row, Beginning_Balance = round2 (Beginning_Balance row),
      Payment = round2 (Payment row), Principal_Paid = round2 (Principal_Paid row),
      Interest_Paid = round2 (Interest_Paid row),
      Ending_Balance = round2 (Ending_Balance row)\<rparr>"

text \<open>
  \<open>build_amortization_schedule\<close> (lines 73-125). A frame built from an empty list has no
  columns, so selecting the six columns raises \<open>KeyError\<close>.
\<close>

definition build_amortization_schedule ::
  "mortgage_payment \<Rightarrow> real \<Rightarrow> real \<Rightarrow> real \<Rightarrow> int \<Rightarrow> error + schedule_row list" where
  "build_amortization_schedule self princ payment rate periods_per_year =
     (let data = schedule_data self princ payment rate periods_per_year in
      if data = [] then Inl KeyError else Inr (map round_row data))"

subsection \<open>The orchestrator\<close>

text \<open>The list \<open>schemes\<close> of \<open>generate_payment_schedule\<close> (lines 136-150).\<close>

record scheme =
  scheme_name :: string
  scheme_payment :: real
  scheme_rate :: real
  scheme_periods_per_year :: int

definition schemes :: "mortgage_payment \<Rightarrow> real \<Rightarrow> error + scheme list" where
  "schemes self princ =
     (case payments self princ of
        Inl e \<Rightarrow> Inl e
      | Inr (monthly_pmt, semi_monthly_pmt, bi_weekly_pmt, accelerated_bi_weekly_pmt,
             weekly_pmt, accelerated_weekly_pmt) \<Rightarrow>
          let acc_bi_weekly_pmt = monthly_pmt / 2;
              acc_weekly_pmt = monthly_pmt / 4
          in Inr
            [\<lparr>scheme_name = ''Monthly'', scheme_payment = monthly_pmt,
              scheme_rate = monthly_rate self, scheme_periods_per_year = 12\<rparr>,
             \<lparr>scheme_name = ''Semi-Monthly'', scheme_payment = semi_monthly_pmt,
              scheme_rate = semi_monthly_rate self, scheme_periods_per_year = 24\<rparr>,
             \<lparr>scheme_name = ''Bi-Weekly'', scheme_payment = bi_weekly_pmt,
              scheme_rate = bi_weekly_rate self, scheme_periods_per_year = 26\<rparr>,
             \<lparr>scheme_name = ''Accelerated Bi-Weekly'', scheme_payment = acc_bi_weekly_pmt,
              scheme_rate = bi_weekly_rate self, scheme_periods_per_year = 26\<rparr>,
             \<lparr>scheme_name = ''Weekly'', scheme_payment = weekly_pmt,
              scheme_rate = weekly_rate self, scheme_periods_per_year = 52\<rparr>,
             \<lparr>scheme_name = ''Accelerated Weekly'', scheme_payment = acc_weekly_pmt,
              scheme_rate = weekly_rate self, scheme_periods_per_year = 52\<rparr>])"

text \<open>
  The loop over \<open>schemes\<close> (lines 154-157) fills the dictionary \<open>schedules\<close>, here an
  association list in insertion order; the first schedule that raises ends the loop.
  Printing, the workbook and the plot are left out.
\<close>

fun build_schedules ::
  "mortgage_payment \<Rightarrow> real \<Rightarrow> scheme list \<Rightarrow> error + (string \<times> schedule_row list) list" where
  "build_schedules self princ [] = Inr []"
| "build_schedules self princ (s # ss) =
     (case build_amortization_schedule self princ (scheme_payment s)
             (scheme_rate s) (scheme_periods_per_year s) of
        Inl e \<Rightarrow> Inl e
      | Inr df \<Rightarrow>
          (case build_schedules self princ ss of
             Inl e \<Rightarrow> Inl e
           | Inr schedules \<Rightarrow> Inr ((scheme_name s, df) # schedules)))"

definition generate_payment_schedule ::
  "mortgage_payment \<Rightarrow> real \<Rightarrow> error + (string \<times> schedule_row list) list" where
  "generate_payment_schedule self princ =
     (case schemes self princ of
        Inl e \<Rightarrow> Inl e
      | Inr ss \<Rightarrow> build_schedules self princ ss)"

subsection \<open>Quantities used in the proofs\<close>

text \<open>
  The balance that line 121 assigns after \<open>k\<close> further periods, started from
  \<open>current_balance\<close>, when the break test is ignored.
\<close>

fun balance_after :: "real \<Rightarrow> real \<Rightarrow> nat \<Rightarrow> real \<Rightarrow> real" where
  "balance_after payment rate 0 current_balance = current_balance"
| "balance_after payment rate (Suc k) current_balance =
     balance_after payment rate k (Ending_Balance (period_row payment rate 0 current_balance))"

text \<open>
  The present value of \<open>j\<close> payments of 1 at the periodic rate \<open>r\<close>: the largest balance
  that \<open>j\<close> payments of 1 retire.
\<close>

fun annuity :: "real \<Rightarrow> nat \<Rightarrow> real" where
  "annuity r 0 = 0"
| "annuity r (Suc j) = (1 + annuity r j) / (1 + r)"

text \<open>The object that \<open>MortgagePayment(0, 1, 1)\<close> constructs, used for concrete runs.\<close>

definition one_year :: mortgage_payment where
  "one_year =
     \<lparr>quoted_interest_rate = 0, amortization_years = 1, term_years = 1,
      monthly_rate = 0, semi_monthly_rate = 0, bi_weekly_rate = 0, weekly_rate = 0\<rparr>"

section \<open>Properties of the schedule loop\<close>

lemma period_row_fields:
  "Period (period_row payment rate period cb) = period"
  "Beginning_Balance (period_row payment rate period cb) = cb"
  "Interest_Paid (period_row payment rate period cb) = cb * rate"
  "Payment (period_row payment rate period cb) =
     (if cb + cb * rate < payment then cb + cb * rate else payment)"
  "Principal_Paid (period_row payment rate period cb) =
     (if cb + cb * rate < payment then cb else payment - cb * rate)"
  "Ending_Balance (period_row payment rate period cb) =
     (if cb + cb * rate < payment then 0 else cb - (payment - cb * rate))"
  by (simp_all add: period_row_def Let_def)

lemma period_row_ending_nonneg: "0 \<le> Ending_Balance (period_row payment rate period cb)"
  by (simp add: period_row_fields)

lemma schedule_loop_pos:
  "0 < cb \<Longrightarrow> schedule_loop payment rate (p # ps) cb =
     period_row payment rate p cb #
       schedule_loop payment rate ps (Ending_Balance (period_row payment rate p cb))"
  by (simp add: Let_def)

lemma schedule_loop_nonpos: "cb \<le> 0 \<Longrightarrow> schedule_loop payment rate ps cb = []"
  by (cases ps) simp_all

lemma schedule_loop_length: "length (schedule_loop payment rate ps cb) \<le> length ps"
  by (induction ps arbitrary: cb) (simp_all add: Let_def)

lemma schedule_loop_hd:
  "schedule_loop payment rate ps cb \<noteq> [] \<Longrightarrow>
     Beginning_Balance (hd (schedule_loop payment rate ps cb)) = cb"
  by (cases ps) (simp_all add: Let_def period_row_fields split: if_splits)

lemma schedule_loop_rows:
  "row \<in> set (schedule_loop payment rate ps cb) \<Longrightarrow>
     0 < Beginning_Balance row \<and>
     Interest_Paid row = Beginning_Balance row * rate \<and>
     Ending_Balance row = Beginning_Balance row - Principal_Paid row \<and>
     0 \<le> Ending_Balance row"
proof (induction ps arbitrary: cb)
  case Nil
  then show ?case by simp
next
  case (Cons p ps)
  show ?case
  proof (cases "cb \<le> 0")
    case True
    with Cons.prems show ?thesis by simp
  next
    case False
    with Cons.prems have "row = period_row payment rate p cb \<or>
      row \<in> set (schedule_loop payment rate ps (Ending_Balance (period_row payment rate p cb)))"
      by (simp add: Let_def)
    then show ?thesis
    proof
      assume "row = period_row payment rate p cb"
      with False show ?thesis by (simp add: period_row_fields)
    next
      assume "row \<in> set (schedule_loop payment rate ps (Ending_Balance (period_row payment rate p cb)))"
      then show ?thesis by (rule Cons.IH)
    qed
  qed
qed

lemma schedule_loop_row_shape:
  "row \<in> set (schedule_loop payment rate ps cb) \<Longrightarrow>
     row = period_row payment rate (Period row) (Beginning_Balance row)"
proof (induction ps arbitrary: cb)
  case Nil
  then show ?case by simp
next
  case (Cons p ps)
  show ?case
  proof (cases "cb \<le> 0")
    case True
    with Cons.prems show ?thesis by simp
  next
    case False
    with Cons.prems have "row = period_row payment rate p cb \<or>
      row \<in> set (schedule_loop payment rate ps (Ending_Balance (period_row payment rate p cb)))"
      by (simp add: Let_def)
    then show ?thesis
    proof
      assume "row = period_row payment rate p cb"
      then show ?thesis by (simp add: period_row_fields)
    next
      assume "row \<in> set (schedule_loop payment rate ps (Ending_Balance (period_row payment rate p cb)))"
      then show ?thesis by (rule Cons.IH)
    qed
  qed
qed

lemma schedule_loop_chain:
  "Suc i < length (schedule_loop payment rate ps cb) \<Longrightarrow>
     Beginning_Balance (schedule_loop payment rate ps cb ! Suc i) =
       Ending_Balance (schedule_loop payment rate ps cb ! i) \<and>
     0 < Ending_Balance (schedule_loop payment rate ps cb ! i) \<and>
     Payment (schedule_loop payment rate ps cb ! i) = payment \<and>
     Principal_Paid (schedule_loop payment rate ps cb ! i) +
       Interest_Paid (schedule_loop payment rate ps cb ! i) = payment"
proof (induction ps arbitrary: cb i)
  case Nil
  then show ?case by simp
next
  case (Cons p ps)
  let ?row = "period_row payment rate p cb"
  let ?rest = "schedule_loop payment rate ps (Ending_Balance ?row)"
  from Cons.prems have pos: "0 < cb"
    by (cases "cb \<le> 0") simp_all
  then have unfold: "schedule_loop payment rate (p # ps) cb = ?row # ?rest"
    by (rule schedule_loop_pos)
  show ?case
  proof (cases i)
    case 0
    with Cons.prems unfold have ne: "?rest \<noteq> []" by auto
    then have e: "0 < Ending_Balance ?row"
      using schedule_loop_nonpos [of "Ending_Balance ?row" payment rate ps] by force
    then have reg: "\<not> cb + cb * rate < payment"
      by (auto simp add: period_row_fields split: if_splits)
    have "Beginning_Balance (?rest ! 0) = Ending_Balance ?row"
      using schedule_loop_hd [OF ne] ne by (simp add: hd_conv_nth)
    with 0 unfold e reg show ?thesis by (simp add: period_row_fields)
  next
    case (Suc j)
    with Cons.prems unfold have "Suc j < length ?rest" by simp
    from Cons.IH [OF this] Suc unfold show ?thesis by simp
  qed
qed

lemma schedule_loop_short_is_last:
  assumes "i < length (schedule_loop payment rate ps cb)"
    and "Beginning_Balance (schedule_loop payment rate ps cb ! i) +
         Interest_Paid (schedule_loop payment rate ps cb ! i) < payment"
  shows "Suc i = length (schedule_loop payment rate ps cb)"
proof (rule ccontr)
  let ?rows = "schedule_loop payment rate ps cb"
  assume "Suc i \<noteq> length ?rows"
  with assms(1) have "Suc i < length ?rows" by simp
  from schedule_loop_chain [OF this]
  have e: "0 < Ending_Balance (?rows ! i)"
    and p: "Principal_Paid (?rows ! i) + Interest_Paid (?rows ! i) = payment"
    by simp_all
  from assms(1) have "?rows ! i \<in> set ?rows" by simp
  from schedule_loop_rows [OF this]
  have "Ending_Balance (?rows ! i) = Beginning_Balance (?rows ! i) - Principal_Paid (?rows ! i)"
    by simp
  with e p assms(2) show False by simp
qed

lemma schedule_loop_principal_sum:
  "schedule_loop payment rate ps cb \<noteq> [] \<Longrightarrow>
     sum_list (map Principal_Paid (schedule_loop payment rate ps cb)) =
       cb - Ending_Balance (last (schedule_loop payment rate ps cb))"
proof (induction ps arbitrary: cb)
  case Nil
  then show ?case by simp
next
  case (Cons p ps)
  let ?row = "period_row payment rate p cb"
  let ?rest = "schedule_loop payment rate ps (Ending_Balance ?row)"
  from Cons.prems have pos: "0 < cb"
    by (cases "cb \<le> 0") simp_all
  note unfold = schedule_loop_pos [OF pos, of payment rate p ps]
  have step: "Principal_Paid ?row = cb - Ending_Balance ?row"
    by (simp add: period_row_fields)
  show ?case
  proof (cases "?rest = []")
    case True
    with step show ?thesis by (simp only: unfold) simp
  next
    case False
    from Cons.IH [OF False] step False show ?thesis by (simp only: unfold) simp
  qed
qed

lemma schedule_loop_exhausted:
  "(\<And>k. k \<le> length ps \<Longrightarrow> 0 < balance_after payment rate k cb) \<Longrightarrow>
     length (schedule_loop payment rate ps cb) = length ps \<and>
     (ps \<noteq> [] \<longrightarrow> Ending_Balance (last (schedule_loop payment rate ps cb)) =
        balance_after payment rate (length ps) cb)"
proof (induction ps arbitrary: cb)
  case Nil
  show ?case by simp
next
  case (Cons p ps)
  let ?row = "period_row payment rate p cb"
  let ?e = "Ending_Balance ?row"
  let ?rest = "schedule_loop payment rate ps ?e"
  from Cons.prems [of 0] have pos: "0 < cb" by simp
  note unfold = schedule_loop_pos [OF pos, of payment rate p ps]
  have e: "Ending_Balance (period_row payment rate 0 cb) = ?e"
    by (simp add: period_row_fields)
  have "0 < balance_after payment rate k ?e" if "k \<le> length ps" for k
    using Cons.prems [of "Suc k"] that e by simp
  from Cons.IH [OF this]
  have len: "length ?rest = length ps"
    and lst: "ps \<noteq> [] \<longrightarrow> Ending_Balance (last ?rest) = balance_after payment rate (length ps) ?e"
    by simp_all
  show ?case
  proof (cases "ps = []")
    case True
    with len e pos show ?thesis by simp
  next
    case False
    with len have "?rest \<noteq> []" by auto
    with len lst False e show ?thesis by (simp only: unfold) simp
  qed
qed

subsection \<open>Payments that retire the balance within the budget\<close>

lemma annuity_rate_zero: "annuity 0 j = real j"
  by (induction j) simp_all

lemma annuity_times_power:
  assumes "0 \<le> r"
  shows "r * annuity r j * (1 + r) ^ j = (1 + r) ^ j - 1"
proof (induction j)
  case 0
  show ?case by simp
next
  case (Suc j)
  from assms have "1 + r \<noteq> 0" by simp
  then have step: "annuity r (Suc j) * (1 + r) = 1 + annuity r j"
    by simp
  have "r * annuity r (Suc j) * (1 + r) ^ Suc j =
      r * (annuity r (Suc j) * (1 + r)) * (1 + r) ^ j"
    by (simp only: power_Suc mult_ac)
  also have "\<dots> = r * (1 + r) ^ j + r * annuity r j * (1 + r) ^ j"
    by (simp only: step) (simp add: algebra_simps)
  also have "\<dots> = (1 + r) ^ Suc j - 1"
    unfolding Suc by (simp add: algebra_simps)
  finally show ?case .
qed

lemma annuity_closed:
  assumes "0 \<le> r"
  shows "r * annuity r j = 1 - inverse ((1 + r) ^ j)"
proof -
  from assms have q: "(1 + r) ^ j \<noteq> 0" by simp
  have "r * annuity r j = (r * annuity r j * (1 + r) ^ j) / (1 + r) ^ j"
    using q by simp
  also have "\<dots> = ((1 + r) ^ j - 1) / (1 + r) ^ j"
    by (simp only: annuity_times_power [OF assms])
  also have "\<dots> = 1 - inverse ((1 + r) ^ j)"
    using q by (simp add: field_simps)
  finally show ?thesis .
qed

lemma annuity_nonneg: "0 \<le> r \<Longrightarrow> 0 \<le> annuity r j"
  by (induction j) simp_all

lemma schedule_loop_reaches_zero:
  assumes "0 \<le> rate" "0 \<le> payment"
  shows "0 < cb \<Longrightarrow> cb \<le> payment * annuity rate j \<Longrightarrow> j \<le> length ps \<Longrightarrow>
     schedule_loop payment rate ps cb \<noteq> [] \<and>
     Ending_Balance (last (schedule_loop payment rate ps cb)) = 0"
proof (induction ps arbitrary: cb j)
  case Nil
  then show ?case by simp
next
  case (Cons p ps)
  let ?row = "period_row payment rate p cb"
  let ?e = "Ending_Balance ?row"
  let ?rest = "schedule_loop payment rate ps ?e"
  note unfold = schedule_loop_pos [OF \<open>0 < cb\<close>, of payment rate p ps]
  from Cons.prems obtain k where j: "j = Suc k"
    by (cases j) auto
  show ?case
  proof (cases "0 < ?e")
    case False
    then have "?rest = []" by (simp add: schedule_loop_nonpos)
    moreover from False have "?e = 0"
      using period_row_ending_nonneg [of payment rate p cb] by simp
    ultimately show ?thesis by (simp only: unfold) simp
  next
    case True
    then have reg: "\<not> cb + cb * rate < payment" and e: "?e = cb + cb * rate - payment"
      by (auto simp add: period_row_fields split: if_splits)
    from assms have r1: "0 < 1 + rate" by simp
    from Cons.prems(2) j have "cb \<le> payment * ((1 + annuity rate k) / (1 + rate))" by simp
    then have "cb * (1 + rate) \<le> payment * (1 + annuity rate k)"
      using r1 by (simp add: field_simps)
    then have "?e \<le> payment * annuity rate k"
      unfolding e by (simp add: algebra_simps)
    moreover from Cons.prems(3) j have "k \<le> length ps" by simp
    ultimately have "?rest \<noteq> [] \<and> Ending_Balance (last ?rest) = 0"
      using Cons.IH [OF True] by blast
    then show ?thesis by (simp only: unfold) simp
  qed
qed

section \<open>Properties of the payment solver\<close>

lemma power_eq_one_abs:
  fixes x :: real
  assumes "x ^ n = 1" "0 < n"
  shows "\<bar>x\<bar> = 1"
  using power_eq_1_iff [OF assms(1)] assms(2) by simp

lemma power_int_eq_one_iff:
  fixes x :: real
  shows "x powi k = 1 \<longleftrightarrow> k = 0 \<or> x = 1 \<or> (x = - 1 \<and> even k)"
proof
  assume eq: "x powi k = 1"
  show "k = 0 \<or> x = 1 \<or> (x = - 1 \<and> even k)"
  proof (cases "k = 0")
    case True
    then show ?thesis by simp
  next
    case False
    have ax: "\<bar>x\<bar> = 1"
    proof (cases "0 \<le> k")
      case True
      with eq False have "x ^ nat k = 1" "0 < nat k"
        by (simp_all add: power_int_def)
      then show ?thesis by (rule power_eq_one_abs)
    next
      case False
      with eq have "inverse x ^ nat (- k) = 1" "0 < nat (- k)"
        by (simp_all add: power_int_def)
      then have "\<bar>inverse x\<bar> = 1" by (rule power_eq_one_abs)
      then show ?thesis by (simp add: abs_inverse inverse_eq_1_iff)
    qed
    show ?thesis
    proof (cases "x = 1")
      case True
      then show ?thesis by simp
    next
      case False
      with ax have x: "x = - 1" by (simp add: abs_if split: if_splits)
      have "even k"
      proof (rule ccontr)
        assume "odd k"
        then have "(- 1 :: real) powi k = - 1" by simp
        with eq x show False by simp
      qed
      with x show ?thesis by simp
    qed
  qed
next
  assume "k = 0 \<or> x = 1 \<or> (x = - 1 \<and> even k)"
  then show "x powi k = 1" by auto
qed

lemma float_pow_pos: "0 < x \<Longrightarrow> float_pow x y = Inr (x powr y)"
  by (simp add: float_pow_def)

lemma powr_of_int_powi: "0 < x \<Longrightarrow> x powr of_int k = x powi k"
  for x :: real
  by (rule powr_real_of_int') simp_all

lemma float_pow_of_int:
  "float_pow x (of_int k) =
     (if x = 0 \<and> k < 0 then Inl ZeroDivisionError else Inr (x powi k))"
proof -
  consider "0 < x" | "x = 0" | "x < 0" by linarith
  then show ?thesis
  proof cases
    case 1
    then show ?thesis by (simp add: float_pow_pos powr_of_int_powi)
  next
    case 2
    then show ?thesis by (simp add: float_pow_def power_int_0_left_if)
  next
    case 3
    then show ?thesis by (simp add: float_pow_def)
  qed
qed

lemma calculate_payment_unfold:
  assumes "n = amortization_years self * m"
  shows "calculate_payment self princ rate m =
     (if rate = 0 then
        (if n = 0 then Inl ZeroDivisionError else Inr (princ / of_int n))
      else if 1 + rate = 0 \<and> 0 < n then Inl ZeroDivisionError
      else if (1 + rate) powi (- n) = 1 then Inl ZeroDivisionError
      else Inr (princ * rate / (1 - (1 + rate) powi (- n))))"
  unfolding calculate_payment_def Let_def assms [symmetric] float_pow_of_int
  by simp

lemma calculate_payment_zero_rate:
  assumes "n = amortization_years self * m" "n \<noteq> 0"
  shows "calculate_payment self princ 0 m = Inr (princ / of_int n)"
  using assms(2) by (simp add: calculate_payment_unfold [OF assms(1)])

lemma calculate_payment_pos_rate:
  assumes "n = amortization_years self * m" "n \<noteq> 0" "0 < rate"
  shows "calculate_payment self princ rate m =
     Inr (princ * rate / (1 - (1 + rate) powi (- n)))"
  using assms(2,3) by (simp add: calculate_payment_unfold [OF assms(1)] power_int_eq_one_iff)

lemma calculate_payment_error_iff:
  assumes "n = amortization_years self * m"
  shows "calculate_payment self princ rate m = Inl e \<longleftrightarrow>
     e = ZeroDivisionError \<and>
     (n = 0 \<or> (rate = - 1 \<and> 0 < n) \<or> (rate = - 2 \<and> even n))"
proof -
  have r1: "1 + rate = 0 \<longleftrightarrow> rate = - 1" and r2: "1 + rate = - 1 \<longleftrightarrow> rate = - 2"
    by auto
  show ?thesis
    unfolding calculate_payment_unfold [OF assms] power_int_eq_one_iff r1 r2
    by auto
qed

lemma calculate_payment_total:
  assumes "0 \<le> rate" "0 < amortization_years self" "0 < m"
  shows "\<exists>v. calculate_payment self princ rate m = Inr v"
proof -
  define n where "n = amortization_years self * m"
  from assms(2,3) have n: "n \<noteq> 0" by (simp add: n_def)
  show ?thesis
  proof (cases "rate = 0")
    case True
    with n show ?thesis by (simp add: calculate_payment_zero_rate [OF n_def])
  next
    case False
    with assms(1) have "0 < rate" by simp
    with n show ?thesis by (simp add: calculate_payment_pos_rate [OF n_def])
  qed
qed

lemma solver_covers_principal:
  assumes "0 < princ" "0 \<le> rate" "0 < amortization_years self" "0 < m"
    and "calculate_payment self princ rate m = Inr level"
  shows "0 < level \<and> level * annuity rate (nat (amortization_years self * m)) = princ"
proof -
  define n where "n = amortization_years self * m"
  from assms(3,4) have n: "0 < n" by (simp add: n_def)
  show ?thesis
  proof (cases "rate = 0")
    case True
    with assms(5) n have "level = princ / of_int n"
      by (simp add: calculate_payment_zero_rate [OF n_def])
    with True assms(1) n show ?thesis
      unfolding n_def [symmetric] by (simp add: annuity_rate_zero)
  next
    case False
    with assms(2) have r: "0 < rate" by simp
    let ?q = "(1 + rate) ^ nat n"
    from r n have q: "1 < ?q" by simp
    have v: "(1 + rate) powi (- n) = inverse ?q"
      using n by (simp add: power_int_def power_inverse)
    define d where "d = 1 - inverse ?q"
    from q have "inverse ?q < 1"
      by (simp add: inverse_less_1_iff)
    then have d: "0 < d" by (simp add: d_def)
    from assms(5) r n have level: "level = princ * rate / d"
      by (simp add: calculate_payment_pos_rate [OF n_def] v d_def)
    have a: "rate * annuity rate (nat n) = d"
      unfolding d_def using assms(2) by (rule annuity_closed)
    have "level * annuity rate (nat n) = princ * (rate * annuity rate (nat n)) / d"
      by (simp add: level)
    also have "\<dots> = princ"
      using d by (simp add: a)
    finally have "level * annuity rate (nat n) = princ" .
    moreover from level assms(1) r d have "0 < level" by simp
    ultimately show ?thesis unfolding n_def by simp
  qed
qed

section \<open>The returned frame\<close>

lemma schedule_data_nonempty_iff:
  "schedule_data self princ payment rate ppy \<noteq> [] \<longleftrightarrow>
     0 < princ \<and> 0 \<le> amortization_years self * ppy"
proof -
  define n where "n = amortization_years self * ppy"
  show ?thesis
  proof (cases "0 \<le> n")
    case True
    then have "[1..n + 1] = 1 # [2..n + 1]" by (simp add: upto_rec1)
    then show ?thesis
      unfolding schedule_data_def Let_def n_def [symmetric] using True
      by (simp add: Let_def)
  next
    case False
    then show ?thesis
      unfolding schedule_data_def Let_def n_def [symmetric] by simp
  qed
qed

lemma schedule_data_reaches_zero:
  assumes "0 < princ" "0 \<le> rate" "0 < amortization_years self" "0 < ppy"
    and "calculate_payment self princ rate ppy = Inr level" "level \<le> payment"
  shows "schedule_data self princ payment rate ppy \<noteq> [] \<and>
     Ending_Balance (last (schedule_data self princ payment rate ppy)) = 0"
proof -
  define n where "n = amortization_years self * ppy"
  from assms(3,4) have n: "0 < n" by (simp add: n_def)
  from solver_covers_principal [OF assms(1-5)]
  have level: "0 < level" and cover: "level * annuity rate (nat n) = princ"
    by (simp_all add: n_def)
  have "level * annuity rate (nat n) \<le> payment * annuity rate (nat n)"
    using assms(6) annuity_nonneg [OF assms(2)] by (rule mult_right_mono)
  with cover have le: "princ \<le> payment * annuity rate (nat n)" by simp
  from level assms(6) have pay: "0 \<le> payment" by simp
  have len: "nat n \<le> length [1..n + 1]" by simp
  show ?thesis
    unfolding schedule_data_def Let_def n_def [symmetric]
    using schedule_loop_reaches_zero [OF assms(2) pay assms(1) le len] .
qed

lemma build_amortization_schedule_result:
  "build_amortization_schedule self princ payment rate ppy =
     (if 0 < princ \<and> 0 \<le> amortization_years self * ppy
      then Inr (map round_row (schedule_data self princ payment rate ppy))
      else Inl KeyError)"
  using schedule_data_nonempty_iff [of self princ payment rate ppy]
  by (auto simp add: build_amortization_schedule_def Let_def)

lemma rint_error: "\<bar>of_int (rint y) - y\<bar> \<le> 1 / 2"
proof -
  have "of_int \<lfloor>y\<rfloor> \<le> y" "y < of_int \<lfloor>y\<rfloor> + 1" by linarith+
  then show ?thesis by (auto simp add: rint_def Let_def)
qed

lemma round2_error: "\<bar>round2 x - x\<bar> \<le> 1 / 200"
proof -
  have "\<bar>of_int (rint (x * 100)) - x * 100\<bar> \<le> 1 / 2" by (rule rint_error)
  then show ?thesis by (simp add: round2_def field_simps abs_le_iff)
qed

lemma rounded_sum_error:
  "\<bar>sum_list (map (\<lambda>row. round2 (f row)) rows) - sum_list (map f rows)\<bar>
     \<le> real (length rows) / 200"
proof (induction rows)
  case Nil
  show ?case by simp
next
  case (Cons row rows)
  let ?a = "round2 (f row) - f row"
  let ?b = "sum_list (map (\<lambda>row. round2 (f row)) rows) - sum_list (map f rows)"
  have a: "\<bar>?a\<bar> \<le> 1 / 200" by (rule round2_error)
  have "\<bar>?a + ?b\<bar> \<le> \<bar>?a\<bar> + \<bar>?b\<bar>" by (rule abs_triangle_ineq)
  also have "\<dots> \<le> 1 / 200 + real (length rows) / 200"
    using a Cons by (rule add_mono)
  finally have "\<bar>?a + ?b\<bar> \<le> real (length (row # rows)) / 200"
    by (simp add: add_divide_distrib)
  moreover have "sum_list (map (\<lambda>row. round2 (f row)) (row # rows)) - sum_list (map f (row # rows))
      = ?a + ?b" by simp
  ultimately show ?case by (simp only:)
qed

lemma round_row_principal: "Principal_Paid (round_row row) = round2 (Principal_Paid row)"
  by (simp add: round_row_def)

section \<open>The rate converter and the constructor\<close>

lemma period_rate_nonneg:
  assumes "0 \<le> r" "0 < p"
  shows "period_rate r p = Inr ((1 + r / 2) powr (2 / of_int p) - 1)"
  using assms by (simp add: period_rate_def float_pow_pos)



lemma init_rates_nonneg:
  assumes "init quoted years term_y = Inr self" "0 \<le> quoted"
  shows "amortization_years self = years \<and> 0 \<le> monthly_rate self \<and>
     0 \<le> semi_monthly_rate self \<and> 0 \<le> bi_weekly_rate self \<and> 0 \<le> weekly_rate self"
proof -
  from assms(2) have q: "0 \<le> quoted / 100" by simp
  then have one: "1 \<le> 1 + quoted / 100 / 2" by simp
  have ge: "0 \<le> (1 + quoted / 100 / 2) powr (2 / of_int p) - 1" if "0 < p" for p :: int
    using ge_one_powr_ge_zero [OF one, of "2 / of_int p"] that by simp
  from assms(1) have "self =
      \<lparr>quoted_interest_rate = quoted / 100, amortization_years = years, term_years = term_y,
       monthly_rate = (1 + quoted / 100 / 2) powr (2 / of_int 12) - 1,
       semi_monthly_rate = (1 + quoted / 100 / 2) powr (2 / of_int 24) - 1,
       bi_weekly_rate = (1 + quoted / 100 / 2) powr (2 / of_int 26) - 1,
       weekly_rate = (1 + quoted / 100 / 2) powr (2 / of_int 52) - 1\<rparr>"
    by (simp add: init_def Let_def period_rate_nonneg [OF q])
  with ge [of 12] ge [of 24] ge [of 26] ge [of 52] show ?thesis by simp
qed

lemma payments_total:
  assumes "init quoted years term_y = Inr self" "0 \<le> quoted" "0 < years"
  shows "\<exists>monthly semi_monthly bi_weekly weekly.
     payments self princ =
       Inr (monthly, semi_monthly, bi_weekly, monthly / 2, weekly, monthly / 4)"
proof -
  from init_rates_nonneg [OF assms(1,2)] assms(3)
  have y: "0 < amortization_years self"
    and r: "0 \<le> monthly_rate self" "0 \<le> semi_monthly_rate self"
      "0 \<le> bi_weekly_rate self" "0 \<le> weekly_rate self"
    by simp_all
  from calculate_payment_total [OF r(1) y, of 12 princ]
    calculate_payment_total [OF r(2) y, of 24 princ]
    calculate_payment_total [OF r(3) y, of 26 princ]
    calculate_payment_total [OF r(4) y, of 52 princ]
  show ?thesis by (auto simp add: payments_def Let_def)
qed

lemma binomial_lower_bound:
  fixes t :: real
  assumes "0 \<le> t"
  shows "1 + real p * t + real p * (real p - 1) / 2 * t\<^sup>2 \<le> (1 + t) ^ p"
proof (induction p)
  case 0
  show ?case by simp
next
  case (Suc p)
  let ?c = "real p * (real p - 1) / 2"
  have c: "0 \<le> ?c"
    by (cases p) simp_all
  have "1 + real (Suc p) * t + real (Suc p) * (real (Suc p) - 1) / 2 * t\<^sup>2
      \<le> 1 + real (Suc p) * t + real (Suc p) * (real (Suc p) - 1) / 2 * t\<^sup>2 + ?c * t ^ 3"
    using c assms by simp
  also have "\<dots> = (1 + t) * (1 + real p * t + ?c * t\<^sup>2)"
    by (simp add: field_simps power2_eq_square power3_eq_cube)
  also have "\<dots> \<le> (1 + t) * (1 + t) ^ p"
    using Suc assms by (intro mult_left_mono) simp_all
  finally show ?case by simp
qed

lemma period_rate_below_division:
  fixes r :: real
  assumes "0 < r" "3 \<le> n"
  shows "(1 + r / 2) powr (2 / real n) < 1 + r / real n"
proof -
  let ?t = "r / real n"
  from assms have n: "0 < real n" "3 \<le> real n" by simp_all
  from assms have t: "0 \<le> ?t" by simp
  have "(1 + r / 2)\<^sup>2 = 1 + r + r\<^sup>2 / 4"
    by (simp add: power2_eq_square algebra_simps)
  also have "\<dots> < 1 + r + (real n - 1) / (2 * real n) * r\<^sup>2"
  proof -
    from n have "1 / 4 < (real n - 1) / (2 * real n)"
      by (simp add: field_simps)
    moreover from assms(1) have "0 < r\<^sup>2" by simp
    ultimately have "1 / 4 * r\<^sup>2 < (real n - 1) / (2 * real n) * r\<^sup>2"
      by (rule mult_strict_right_mono)
    then show ?thesis by simp
  qed
  also have "\<dots> = 1 + real n * ?t + real n * (real n - 1) / 2 * ?t\<^sup>2"
    using n by (simp add: field_simps power2_eq_square)
  also have "\<dots> \<le> (1 + ?t) ^ n"
    using t by (rule binomial_lower_bound)
  finally have less: "(1 + r / 2)\<^sup>2 < (1 + ?t) ^ n" .
  from assms(1) have base: "0 < 1 + r / 2" by simp
  from t have base': "0 < 1 + ?t" by linarith
  have "((1 + r / 2)\<^sup>2) powr (1 / real n) < ((1 + ?t) ^ n) powr (1 / real n)"
    using n(1) less by (intro powr_less_mono2) simp_all
  moreover have "((1 + r / 2)\<^sup>2) powr (1 / real n) = (1 + r / 2) powr (2 / real n)"
    using base by (simp add: powr_powr flip: powr_numeral)
  moreover have "((1 + ?t) ^ n) powr (1 / real n) = 1 + ?t"
    using base' n(1) by (simp add: powr_powr flip: powr_realpow)
  ultimately show ?thesis by simp
qed

section \<open>A concrete object\<close>

lemma init_one_year: "init 0 1 1 = Inr one_year"
  by (simp add: init_def period_rate_def float_pow_def one_year_def)

lemma one_year_years: "amortization_years one_year = 1"
  by (simp add: one_year_def)

lemma one_year_rates:
  "monthly_rate one_year = 0" "semi_monthly_rate one_year = 0"
  "bi_weekly_rate one_year = 0" "weekly_rate one_year = 0"
  by (simp_all add: one_year_def)

section \<open>The claims\<close>

subsection \<open>C1: the invariant of the schedule\<close>




subsection \<open>C2: the short final row\<close>

text \<open>
  C2. Inside the loop, with a positive balance, whenever the balance plus the period's
  interest is strictly below the level payment, the loop emits exactly one row from there
  on: its payment is the balance plus the interest, its principal part is the whole
  balance and its ending balance is 0. In any schedule a row whose beginning balance plus
  interest is below the level payment has these fields and is the last row, and a row that
  pays less than the level payment can only be the last one, so there is at most one.
\<close>

theorem short_final_row:
  assumes "rows = schedule_data self princ payment rate periods_per_year"
  shows "(0 < current_balance \<and> current_balance + current_balance * rate < payment \<longrightarrow>
       schedule_loop payment rate (period # periods) current_balance =
         [\<lparr>Period = period, Beginning_Balance = current_balance,
           Payment = current_balance + current_balance * rate,
           Principal_Paid = current_balance,
           Interest_Paid = current_balance * rate, Ending_Balance = 0\<rparr>]) \<and>
     (\<forall>i < length rows.
        Beginning_Balance (rows ! i) + Interest_Paid (rows ! i) < payment \<longrightarrow>
          Suc i = length rows \<and>
          Payment (rows ! i) = Beginning_Balance (rows ! i) + Interest_Paid (rows ! i) \<and>
          Payment (rows ! i) < payment \<and>
          Principal_Paid (rows ! i) = Beginning_Balance (rows ! i) \<and>
          Ending_Balance (rows ! i) = 0) \<and>
     (\<forall>i < length rows. Payment (rows ! i) < payment \<longrightarrow> Suc i = length rows)"
proof (intro conjI allI impI)
  assume "0 < current_balance \<and> current_balance + current_balance * rate < payment"
  then show "schedule_loop payment rate (period # periods) current_balance =
       [\<lparr>Period = period, Beginning_Balance = current_balance,
         Payment = current_balance + current_balance * rate,
         Principal_Paid = current_balance,
         Interest_Paid = current_balance * rate, Ending_Balance = 0\<rparr>]"
    by (simp add: schedule_loop_pos period_row_fields schedule_loop_nonpos)
next
  fix i
  assume i: "i < length rows"
    and short: "Beginning_Balance (rows ! i) + Interest_Paid (rows ! i) < payment"
  from i short show "Suc i = length rows"
    unfolding assms schedule_data_def Let_def by (rule schedule_loop_short_is_last)
  from i have "rows ! i \<in> set rows" by simp
  then have mem: "rows ! i \<in> set (schedule_loop payment rate
      [1..amortization_years self * periods_per_year + 1] princ)"
    by (simp add: assms schedule_data_def Let_def)
  have shape: "rows ! i = period_row payment rate (Period (rows ! i)) (Beginning_Balance (rows ! i))"
    using mem by (rule schedule_loop_row_shape)
  have int: "Interest_Paid (rows ! i) = Beginning_Balance (rows ! i) * rate"
    using schedule_loop_rows [OF mem] by simp
  from short int have c: "Beginning_Balance (rows ! i) + Beginning_Balance (rows ! i) * rate < payment"
    by simp
  show "Payment (rows ! i) = Beginning_Balance (rows ! i) + Interest_Paid (rows ! i)"
    by (subst shape) (simp add: period_row_fields c int)
  show "Payment (rows ! i) < payment"
    by (subst shape) (simp add: period_row_fields c)
  show "Principal_Paid (rows ! i) = Beginning_Balance (rows ! i)"
    by (subst shape) (simp add: period_row_fields c)
  show "Ending_Balance (rows ! i) = 0"
    by (subst shape) (simp add: period_row_fields c)
next
  fix i
  assume i: "i < length rows" and less: "Payment (rows ! i) < payment"
  show "Suc i = length rows"
  proof (rule ccontr)
    assume "Suc i \<noteq> length rows"
    with i have "Suc i < length (schedule_loop payment rate
      [1..amortization_years self * periods_per_year + 1] princ)"
      by (simp add: assms schedule_data_def Let_def)
    from schedule_loop_chain [OF this] less show False
      by (simp add: assms schedule_data_def Let_def)
  qed
qed

theorem short_final_row_witness:
  "schedule_loop 60 0 [2, 3] 40 =
     [\<lparr>Period = 2, Beginning_Balance = 40, Payment = 40, Principal_Paid = 40,
       Interest_Paid = 0, Ending_Balance = 0\<rparr>] \<and>
   length (schedule_data one_year 100 60 0 2) = 2 \<and>
   Beginning_Balance (schedule_data one_year 100 60 0 2 ! 1) +
     Interest_Paid (schedule_data one_year 100 60 0 2 ! 1) < 60 \<and>
   Payment (schedule_data one_year 100 60 0 2 ! 1) = 40 \<and>
   Ending_Balance (schedule_data one_year 100 60 0 2 ! 1) = 0"
  using short_final_row [where rows = "schedule_data one_year 100 60 0 2" and self = one_year
      and princ = 100 and payment = 60 and rate = 0 and periods_per_year = 2
      and current_balance = 40 and period = 2 and periods = "[3]"]
  by (simp add: schedule_data_def one_year_years Let_def upto_rec1 period_row_def)

subsection \<open>C3: the payment formula\<close>

text \<open>
  C3. With \<open>n = amortization_years * m\<close>, \<open>calculate_payment\<close> returns \<open>P / n\<close> when the
  rate is 0 and \<open>P * r / (1 - (1 + r) ^ (- n))\<close> when the rate is positive. Both quotients
  need \<open>n \<noteq> 0\<close>; for \<open>n = 0\<close> Python raises \<open>ZeroDivisionError\<close> in either branch.
\<close>

theorem calculate_payment_formula:
  assumes "n = amortization_years self * m" and "n \<noteq> 0"
  shows "calculate_payment self P 0 m = Inr (P / of_int n) \<and>
     (0 < r \<longrightarrow>
        calculate_payment self P r m = Inr (P * r / (1 - (1 + r) powi (- n))))"
  using assms
  by (simp add: calculate_payment_zero_rate calculate_payment_pos_rate)

theorem calculate_payment_formula_witness:
  "(2::int) = amortization_years one_year * 2 \<and> (2::int) \<noteq> 0 \<and> (0::real) < 1 \<and>
   calculate_payment one_year 300 0 2 = Inr 150 \<and>
   calculate_payment one_year 300 1 2 = Inr 400"
  using calculate_payment_formula [where n = 2 and self = one_year and m = 2 and P = 300
      and r = 1]
  by (simp add: one_year_years power_int_minus)

subsection \<open>C4: the rate converter\<close>

text \<open>
  C4. For a nominal annual rate \<open>r \<ge> 0\<close> and a positive number \<open>p\<close> of periods per year,
  \<open>_period_rate\<close> returns \<open>(1 + r/2) ^ (2/p) - 1\<close>. For \<open>r = 0\<close> this is exactly 0. It is
  not the division \<open>r / p\<close>: the two differ for every positive rate and every \<open>p\<close> other
  than 2 (they agree at \<open>r = 0\<close>, where both are 0, and at \<open>p = 2\<close>, where both are \<open>r / 2\<close>).
\<close>

theorem period_rate_formula:
  assumes "0 \<le> r" and "0 < p"
  shows "period_rate r p = Inr ((1 + r / 2) powr (2 / of_int p) - 1) \<and>
     period_rate 0 p = Inr 0 \<and>
     (0 < r \<and> p \<noteq> 2 \<longrightarrow> period_rate r p \<noteq> Inr (r / of_int p))"
proof (intro conjI impI)
  show formula: "period_rate r p = Inr ((1 + r / 2) powr (2 / of_int p) - 1)"
    using assms by (rule period_rate_nonneg)
  show "period_rate 0 p = Inr 0"
    using assms(2) by (simp add: period_rate_nonneg)
  assume a: "0 < r \<and> p \<noteq> 2"
  then have r: "0 < r" and p2: "p \<noteq> 2" by simp_all
  have "(1 + r / 2) powr (2 / of_int p) - 1 \<noteq> r / of_int p"
  proof (cases "p = 1")
    case True
    from r have "(1 + r / 2) powr 2 = 1 + r + r\<^sup>2 / 4"
      by (simp add: power2_eq_square algebra_simps)
    moreover from r have "0 < r\<^sup>2" by simp
    ultimately show ?thesis using True by simp
  next
    case False
    with assms(2) p2 have "3 \<le> nat p" by simp
    from period_rate_below_division [OF r this] assms(2)
    have "(1 + r / 2) powr (2 / of_int p) < 1 + r / of_int p" by simp
    then show ?thesis by simp
  qed
  then show "period_rate r p \<noteq> Inr (r / of_int p)"
    by (simp add: formula)
qed

theorem period_rate_formula_witness:
  "(0::real) \<le> 2 \<and> (0::int) < 1 \<and>
   period_rate 2 1 = Inr 3 \<and> period_rate 0 1 = Inr 0 \<and> period_rate 2 1 \<noteq> Inr (2 / 1) \<and>
   period_rate (55 / 1000) 12 \<noteq> Inr (55 / 1000 / 12)"
proof -
  have h: "(0::real) \<le> 55 / 1000" "(0::int) < 12" by simp_all
  note monthly = period_rate_formula [OF h, THEN conjunct2, THEN conjunct2]
  then have "period_rate (55 / 1000) 12 \<noteq> Inr (55 / 1000 / 12)" by simp
  with period_rate_formula [where r = 2 and p = 1] show ?thesis by simp
qed

subsection \<open>C5: invalid inputs\<close>




subsection \<open>C6: the iteration budget\<close>

text \<open>
  C6 as stated fails: there is no error for an exhausted budget. With principal 100,
  payment 1, rate 0 and a horizon of one period the builder returns the two rows it had
  time for, the last one still owing 98.
\<close>

theorem budget_exhausted_counterexample:
  "build_amortization_schedule one_year 100 1 0 1 =
     Inr [\<lparr>Period = 1, Beginning_Balance = 100, Payment = 1, Principal_Paid = 1,
            Interest_Paid = 0, Ending_Balance = 99\<rparr>,
          \<lparr>Period = 2, Beginning_Balance = 99, Payment = 1, Principal_Paid = 1,
            Interest_Paid = 0, Ending_Balance = 98\<rparr>]"
  by (simp add: build_amortization_schedule_def schedule_data_def one_year_years Let_def
      upto_rec1 period_row_def round_row_def round2_def rint_def)

text \<open>
  C6, amended. If the balance is still positive after each of the
  \<open>amortization_years * periods_per_year + 1\<close> iterations, the builder raises nothing: it
  returns the \<open>total_periods + 1\<close> rows built so far, rounded to two decimals, and the
  last row built has a positive ending balance, the balance the last iteration left.
\<close>

theorem budget_exhausted_returns_partial:
  assumes "total_periods = amortization_years self * periods_per_year"
    and "0 \<le> total_periods"
    and "\<forall>k \<le> nat (total_periods + 1). 0 < balance_after payment rate k princ"
    and "rows = schedule_data self princ payment rate periods_per_year"
  shows "build_amortization_schedule self princ payment rate periods_per_year =
       Inr (map round_row rows) \<and>
     length rows = nat (total_periods + 1) \<and>
     Ending_Balance (last rows) = balance_after payment rate (nat (total_periods + 1)) princ \<and>
     0 < Ending_Balance (last rows)"
proof -
  define ps where "ps = [1..total_periods + 1]"
  have len: "length ps = nat (total_periods + 1)" by (simp add: ps_def)
  with assms(2) have ne: "ps \<noteq> []" by auto
  have rows: "rows = schedule_loop payment rate ps princ"
    by (simp add: assms(1,4) schedule_data_def Let_def ps_def)
  have "0 < balance_after payment rate k princ" if "k \<le> length ps" for k
    using assms(3) that len by simp
  from schedule_loop_exhausted [OF this] ne len
  have l: "length rows = nat (total_periods + 1)"
    and e: "Ending_Balance (last rows) =
      balance_after payment rate (nat (total_periods + 1)) princ"
    by (simp_all add: rows)
  from assms(3) have "0 < balance_after payment rate 0 princ" by blast
  then have "0 < princ" by simp
  with assms(1,2) have "build_amortization_schedule self princ payment rate periods_per_year =
       Inr (map round_row rows)"
    by (simp add: build_amortization_schedule_result assms(4))
  moreover from assms(3) e have "0 < Ending_Balance (last rows)" by simp
  ultimately show ?thesis using l e by simp
qed

theorem budget_exhausted_returns_partial_witness:
  "(1::int) = amortization_years one_year * 1 \<and> (0::int) \<le> 1 \<and>
   0 < balance_after 1 0 0 100 \<and> 0 < balance_after 1 0 1 100 \<and>
   0 < balance_after 1 0 2 100 \<and>
   build_amortization_schedule one_year 100 1 0 1 =
     Inr (map round_row (schedule_data one_year 100 1 0 1)) \<and>
   length (schedule_data one_year 100 1 0 1) = 2 \<and>
   Ending_Balance (last (schedule_data one_year 100 1 0 1)) = 98"
proof -
  have b: "balance_after 1 0 0 100 = 100" "balance_after 1 0 1 100 = 99"
    "balance_after 1 0 2 100 = 98"
    by (simp_all add: numeral_2_eq_2 period_row_fields)
  have h: "\<forall>k \<le> nat (1 + 1). 0 < balance_after 1 0 k 100"
  proof (intro allI impI)
    fix k :: nat
    assume "k \<le> nat (1 + 1)"
    then consider "k = 0" | "k = 1" | "k = 2" by fastforce
    then show "0 < balance_after 1 0 k 100"
    proof cases
      case 1
      with b(1) show ?thesis by simp
    next
      case 2
      with b(2) show ?thesis by simp
    next
      case 3
      with b(3) show ?thesis by simp
    qed
  qed
  from budget_exhausted_returns_partial [where total_periods = 1 and self = one_year
      and periods_per_year = 1 and payment = 1 and rate = 0 and princ = 100
      and rows = "schedule_data one_year 100 1 0 1", OF _ _ h] b
  show ?thesis by (simp add: one_year_years)
qed

subsection \<open>C7: the accelerated schemes\<close>

text \<open>
  C7. Whenever \<open>payments\<close> returns, its accelerated bi-weekly payment is exactly the
  monthly payment divided by 2 and its accelerated weekly payment exactly the monthly
  payment divided by 4, the monthly payment being the one \<open>calculate_payment\<close> solves at
  the monthly rate; neither is solved at the bi-weekly or weekly rate. The orchestrator
  builds the six schedules in the source's order, the accelerated ones from these two
  payments at the bi-weekly and the weekly periodic rate with 26 and 52 periods per year;
  it needs a positive principal and a positive number of years, and otherwise stops at the
  first, empty schedule.
\<close>

theorem accelerated_payments:
  assumes "payments self princ =
     Inr (monthly, semi_monthly, bi_weekly, accelerated_bi_weekly, weekly, accelerated_weekly)"
  shows "calculate_payment self princ (monthly_rate self) 12 = Inr monthly \<and>
     accelerated_bi_weekly = monthly / 2 \<and> accelerated_weekly = monthly / 4 \<and>
     generate_payment_schedule self princ =
       (if 0 < princ \<and> 0 < amortization_years self then
          Inr [(''Monthly'', map round_row
                  (schedule_data self princ monthly (monthly_rate self) 12)),
               (''Semi-Monthly'', map round_row
                  (schedule_data self princ semi_monthly (semi_monthly_rate self) 24)),
               (''Bi-Weekly'', map round_row
                  (schedule_data self princ bi_weekly (bi_weekly_rate self) 26)),
               (''Accelerated Bi-Weekly'', map round_row
                  (schedule_data self princ (monthly / 2) (bi_weekly_rate self) 26)),
               (''Weekly'', map round_row
                  (schedule_data self princ weekly (weekly_rate self) 52)),
               (''Accelerated Weekly'', map round_row
                  (schedule_data self princ (monthly / 4) (weekly_rate self) 52))]
        else Inl KeyError)"
proof -
  from assms have m: "calculate_payment self princ (monthly_rate self) 12 = Inr monthly"
    and acc: "accelerated_bi_weekly = monthly / 2" "accelerated_weekly = monthly / 4"
    by (auto simp add: payments_def Let_def split: sum.splits)
  from m have "amortization_years self * 12 \<noteq> 0"
    using calculate_payment_error_iff [OF refl, where self = self and m = 12
        and princ = princ and rate = "monthly_rate self" and e = ZeroDivisionError]
    by auto
  then have y: "amortization_years self \<noteq> 0" by simp
  have sign: "0 \<le> amortization_years self * k \<longleftrightarrow> 0 < amortization_years self"
    if "0 < k" for k :: int
    using y that by (auto simp add: zero_le_mult_iff)
  have "generate_payment_schedule self princ =
       (if 0 < princ \<and> 0 < amortization_years self then
          Inr [(''Monthly'', map round_row
                  (schedule_data self princ monthly (monthly_rate self) 12)),
               (''Semi-Monthly'', map round_row
                  (schedule_data self princ semi_monthly (semi_monthly_rate self) 24)),
               (''Bi-Weekly'', map round_row
                  (schedule_data self princ bi_weekly (bi_weekly_rate self) 26)),
               (''Accelerated Bi-Weekly'', map round_row
                  (schedule_data self princ (monthly / 2) (bi_weekly_rate self) 26)),
               (''Weekly'', map round_row
                  (schedule_data self princ weekly (weekly_rate self) 52)),
               (''Accelerated Weekly'', map round_row
                  (schedule_data self princ (monthly / 4) (weekly_rate self) 52))]
        else Inl KeyError)"
    by (simp add: generate_payment_schedule_def schemes_def assms Let_def
        build_amortization_schedule_result sign)
  with m acc show ?thesis by simp
qed

theorem accelerated_payments_witness:
  "payments one_year 31200 = Inr (2600, 1300, 1200, 1300, 600, 650) \<and>
   calculate_payment one_year 31200 (monthly_rate one_year) 12 = Inr 2600 \<and>
   (1300::real) = 2600 / 2 \<and> (650::real) = 2600 / 4 \<and>
   generate_payment_schedule one_year 31200 =
     Inr [(''Monthly'', map round_row (schedule_data one_year 31200 2600 0 12)),
          (''Semi-Monthly'', map round_row (schedule_data one_year 31200 1300 0 24)),
          (''Bi-Weekly'', map round_row (schedule_data one_year 31200 1200 0 26)),
          (''Accelerated Bi-Weekly'', map round_row
             (schedule_data one_year 31200 1300 0 26)),
          (''Weekly'', map round_row (schedule_data one_year 31200 600 0 52)),
          (''Accelerated Weekly'', map round_row (schedule_data one_year 31200 650 0 52))]"
proof -
  have p: "payments one_year 31200 = Inr (2600, 1300, 1200, 1300, 600, 650)"
    by (simp add: payments_def one_year_rates calculate_payment_zero_rate [OF refl]
        one_year_years)
  note w = accelerated_payments [OF p]
  note c = w [THEN conjunct1]
  note g = w [THEN conjunct2, THEN conjunct2, THEN conjunct2]
  from p c show ?thesis
    by (simp add: g one_year_rates one_year_years)
qed

subsection \<open>C8: the principal parts add up to the principal\<close>

text \<open>
  C8. For a positive principal, a positive periodic rate, positive years and periods per
  year, and the payment that \<open>calculate_payment\<close> returns for them, the principal parts of
  the rows the loop builds add up to the principal exactly. In the returned frame, whose
  amounts are rounded to two decimals, the sum is within one cent per row of the
  principal, and within one cent per period of the horizon.
\<close>

theorem principal_paid_sums_to_principal:
  assumes "0 < princ" and "0 < rate"
    and "0 < amortization_years self" and "0 < periods_per_year"
    and "calculate_payment self princ rate periods_per_year = Inr payment"
    and "rows = schedule_data self princ payment rate periods_per_year"
  shows "sum_list (map Principal_Paid rows) = princ \<and>
     build_amortization_schedule self princ payment rate periods_per_year =
       Inr (map round_row rows) \<and>
     \<bar>sum_list (map Principal_Paid (map round_row rows)) - princ\<bar>
       \<le> real (length rows) / 100 \<and>
     \<bar>sum_list (map Principal_Paid (map round_row rows)) - princ\<bar>
       \<le> of_int (amortization_years self * periods_per_year) / 100"
proof -
  define n where "n = amortization_years self * periods_per_year"
  from assms(3,4) have n: "0 < n" by (simp add: n_def)
  from assms(2) have r: "0 \<le> rate" by simp
  have zero: "rows \<noteq> [] \<and> Ending_Balance (last rows) = 0"
    unfolding assms(6)
    using assms(1) r assms(3,4,5) by (rule schedule_data_reaches_zero) simp
  have rows: "rows = schedule_loop payment rate [1..n + 1] princ"
    by (simp add: assms(6) schedule_data_def Let_def n_def)
  from zero have "sum_list (map Principal_Paid rows) = princ - Ending_Balance (last rows)"
    unfolding rows by (intro schedule_loop_principal_sum) simp
  with zero have exact: "sum_list (map Principal_Paid rows) = princ" by simp
  have built: "build_amortization_schedule self princ payment rate periods_per_year =
       Inr (map round_row rows)"
    using assms(1) n by (simp add: build_amortization_schedule_result assms(6) n_def)
  have eq: "map Principal_Paid (map round_row rows) =
      map (\<lambda>row. round2 (Principal_Paid row)) rows"
    by (simp add: round_row_principal)
  have "\<bar>sum_list (map Principal_Paid (map round_row rows)) -
      sum_list (map Principal_Paid rows)\<bar> \<le> real (length rows) / 200"
    unfolding eq by (rule rounded_sum_error)
  then have err: "\<bar>sum_list (map Principal_Paid (map round_row rows)) - princ\<bar>
      \<le> real (length rows) / 200"
    by (simp only: exact)
  have "length rows \<le> length [1..n + 1]"
    unfolding rows by (rule schedule_loop_length)
  with n have "int (length rows) \<le> n + 1" by simp
  then have "real_of_int (int (length rows)) \<le> real_of_int (n + 1)"
    by (simp only: of_int_le_iff)
  then have "real (length rows) \<le> of_int n + 1" by simp
  moreover from n have "(1::real) \<le> of_int n" by linarith
  ultimately have "real (length rows) / 200 \<le> of_int n / 100" by simp
  with err have "\<bar>sum_list (map Principal_Paid (map round_row rows)) - princ\<bar>
      \<le> of_int n / 100" by linarith
  moreover from err have "\<bar>sum_list (map Principal_Paid (map round_row rows)) - princ\<bar>
      \<le> real (length rows) / 100" by simp
  ultimately show ?thesis using exact built by (simp add: n_def)
qed

theorem principal_paid_sums_to_principal_witness:
  "calculate_payment one_year 700 1 3 = Inr 800 \<and>
   sum_list (map Principal_Paid (schedule_data one_year 700 800 1 3)) = 700 \<and>
   build_amortization_schedule one_year 700 800 1 3 =
     Inr (map round_row (schedule_data one_year 700 800 1 3))"
proof -
  have pay: "calculate_payment one_year 700 1 3 = Inr 800"
    by (simp add: calculate_payment_pos_rate [where n = 3] one_year_years power_int_minus)
  from pay principal_paid_sums_to_principal [where princ = 700 and rate = 1
      and self = one_year and periods_per_year = 3 and payment = 800
      and rows = "schedule_data one_year 700 800 1 3"]
  show ?thesis by (simp add: one_year_years)
qed

subsection \<open>C9: compounding back to the semi-annual rate\<close>

text \<open>
  C9. For a nominal annual rate \<open>r \<ge> 0\<close> and a positive number \<open>p\<close> of periods per year,
  the periodic rate compounded over half a year, that is \<open>p / 2\<close> periods, gives
  \<open>1 + r/2\<close>. In particular six monthly periods and twenty-six weekly periods both
  compound to the effective semi-annual rate \<open>r / 2\<close>.
\<close>

theorem period_rate_compounds_to_semi_annual:
  assumes "0 \<le> r" and "0 < p"
  shows "(\<exists>i. period_rate r p = Inr i \<and> (1 + i) powr (of_int p / 2) = 1 + r / 2) \<and>
     (\<exists>i12 i52. period_rate r 12 = Inr i12 \<and> period_rate r 52 = Inr i52 \<and>
        (1 + i12) ^ 6 = 1 + r / 2 \<and> (1 + i52) ^ 26 = 1 + r / 2 \<and>
        (1 + i12) ^ 6 = (1 + i52) ^ 26)"
proof -
  from assms(1) have base: "0 < 1 + r / 2" by simp
  have half: "((1 + r / 2) powr (2 / of_int q)) powr (of_int q / 2) = 1 + r / 2"
    if "0 < q" for q :: int
    using base that by (simp add: powr_powr)
  have whole: "((1 + r / 2) powr (2 / real k)) ^ (k div 2) = 1 + r / 2"
    if "0 < k" "even k" for k :: nat
  proof -
    from base have "0 < (1 + r / 2) powr (2 / real k)" by simp
    then have "((1 + r / 2) powr (2 / real k)) ^ (k div 2) =
        ((1 + r / 2) powr (2 / real k)) powr real (k div 2)"
      by (simp only: powr_realpow)
    also have "\<dots> = (1 + r / 2) powr (2 / real k * real (k div 2))"
      by (simp only: powr_powr)
    also from that have "2 / real k * real (k div 2) = 1"
      by (auto elim!: evenE)
    finally show ?thesis using base by simp
  qed
  from whole [of 12] have m: "((1 + r / 2) powr (2 / 12)) ^ 6 = 1 + r / 2" by simp
  from whole [of 52] have w: "((1 + r / 2) powr (2 / 52)) ^ 26 = 1 + r / 2" by simp
  have "period_rate r p = Inr ((1 + r / 2) powr (2 / of_int p) - 1)"
    using assms by (rule period_rate_nonneg)
  with half [OF assms(2)]
  have first: "\<exists>i. period_rate r p = Inr i \<and> (1 + i) powr (of_int p / 2) = 1 + r / 2"
    by simp
  have "period_rate r 12 = Inr ((1 + r / 2) powr (2 / 12) - 1)"
    "period_rate r 52 = Inr ((1 + r / 2) powr (2 / 52) - 1)"
    using period_rate_nonneg [OF assms(1), of 12] period_rate_nonneg [OF assms(1), of 52]
    by simp_all
  with m w have "\<exists>i12 i52. period_rate r 12 = Inr i12 \<and> period_rate r 52 = Inr i52 \<and>
        (1 + i12) ^ 6 = 1 + r / 2 \<and> (1 + i52) ^ 26 = 1 + r / 2 \<and>
        (1 + i12) ^ 6 = (1 + i52) ^ 26"
    by simp
  with first show ?thesis by blast
qed

theorem period_rate_compounds_to_semi_annual_witness:
  "(0::real) \<le> 6 / 100 \<and> (0::int) < 2 \<and>
   period_rate (6 / 100) 2 = Inr (3 / 100) \<and>
   (1 + 3 / 100) powr (of_int 2 / 2) = (1::real) + (6 / 100) / 2"
  using period_rate_compounds_to_semi_annual [where r = "6 / 100" and p = 2]
  by (simp add: period_rate_nonneg)

subsection \<open>C10: the boundary of the final-period test\<close>



end
